theory Spec2Isabelle
  imports Main "HOL-Library.Sublist"
begin

section \<open>Python string primitives used by the patch script\<close>

text \<open>
  A Python \<open>str\<close> is a sequence of code points; the operations below are polymorphic in
  the element type, so they apply to \<open>string\<close> literals as well as to code-point lists.

  \<open>text.find(sub, start)\<close> returns the lowest index \<open>i \<ge> start\<close> with
  \<open>text[i:i+len(sub)] == sub\<close>, or \<open>-1\<close>. A negative \<open>start\<close> counts from the end
  and is clamped to \<open>0\<close>; a \<open>start\<close> beyond the end of the text gives \<open>-1\<close>. The empty
  \<open>sub\<close> is found at every index up to and including \<open>len(text)\<close>.
\<close>

fun find_scan :: "'a list \<Rightarrow> 'a list \<Rightarrow> nat \<Rightarrow> int" where
  "find_scan sub [] i = (if sub = [] then int i else - 1)"
| "find_scan sub (x # xs) i =
     (if prefix sub (x # xs) then int i else find_scan sub xs (Suc i))"

definition str_find :: "'a list \<Rightarrow> 'a list \<Rightarrow> int \<Rightarrow> int" where
  "str_find text sub start =
     (let n = int (length text);
          s = (if start < 0 then max 0 (start + n) else start)
      in if n < s then - 1 else find_scan sub (drop (nat s) text) (nat s))"

text \<open>
  Slice bounds: a negative bound counts from the end, and every bound is clamped to
  \<open>[0, len(text)]\<close>, so \<open>text[:i]\<close> and \<open>text[i:]\<close> never raise.
\<close>

definition slice_bound :: "int \<Rightarrow> nat \<Rightarrow> nat" where
  "slice_bound i n = (if i < 0 then nat (max 0 (i + int n)) else min (nat i) n)"

definition slice_to :: "'a list \<Rightarrow> int \<Rightarrow> 'a list" where
  "slice_to text i = take (slice_bound i (length text)) text"

definition slice_from :: "'a list \<Rightarrow> int \<Rightarrow> 'a list" where
  "slice_from text i = drop (slice_bound i (length text)) text"

section \<open>The anchored block replacement (lines 6 to 13 of \<open>patch.py\<close>)\<close>

text \<open>
  The two \<open>raise SystemExit(...)\<close> guards of the script are the two errors. The script's
  three literals (\<open>old\<close>, the end marker and \<open>replacement\<close>) are parameters here; the
  script itself, with its literals, is \<open>main\<close> below.
\<close>

datatype error = AnchorNotFound | EndMarkerNotFound

definition replace :: "'a list \<Rightarrow> 'a list \<Rightarrow> 'a list \<Rightarrow> 'a list \<Rightarrow> error + 'a list" where
  "replace text old end_marker replacement =
     (let start = str_find text old 0 in
      if start = - 1 then Inl AnchorNotFound
      else
        let end' = str_find text end_marker start in
        if end' = - 1 then Inl EndMarkerNotFound
        else Inr (slice_to text start @ replacement @ slice_from text (end' + 1)))"

section \<open>The script with its literals and its file\<close>

type_synonym codepoint = nat
type_synonym str = "codepoint list"

definition cp :: "string \<Rightarrow> str" where
  "cp s = map of_char s"

definition path :: string where
  "path = ''src/lib/tryon/production-tryon-pipeline.ts''"

definition old :: str where
  "old = cp ''        if (identitySafe) {''"

definition end_marker :: str where
  "end_marker = cp ''\<newline>        } else {''"

definition replacement :: str where
  "replacement =
   cp ''        if (pixelCorrectionEnabled) {\<newline>'' @
   cp ''            // DO NOT TOUCH '' @ [8211] @ cp '' IDENTITY INVARIANT\<newline>'' @
   cp ''            // Eyes are read-only biometric pixels copied from Image 1.\<newline>'' @
   cp ''            const eyeAuthorityRule = 'Eyes are read-only biometric pixels copied from Image 1.'\<newline>'' @
   cp ''            console.log(`EYE AUTHORITY LOCK: ${eyeAuthorityRule}`)\<newline>'' @
   cp ''            eyePixelData = await extractEyeRegionPixels(originalImageBuffer)\<newline>'' @
   cp ''            if (!eyePixelData) {\<newline>'' @
   cp ''                stages.push({\<newline>'' @
   cp ''                    stage: 1,\<newline>'' @
   cp ''                    name: 'Face Pixel Extraction',\<newline>'' @
   cp ''                    status: 'FAIL',\<newline>'' @
   cp ''                    timeMs: Date.now() - stage1Start,\<newline>'' @
   cp ''                    data: { error: 'Eye-region extraction failed' }\<newline>'' @
   cp ''                })\<newline>'' @
   cp ''\<newline>'' @
   cp ''                return {\<newline>'' @
   cp ''                    success: false,\<newline>'' @
   cp ''                    image: '' @ [39, 39] @ cp '',\<newline>'' @
   cp ''                    status: 'FAIL',\<newline>'' @
   cp ''                    warnings: ['Eye-region lock failed. Please use an image with clear visible eyes.'],\<newline>'' @
   cp ''                    debug: { stages, totalTimeMs: Date.now() - startTime, faceOverwritten: false }\<newline>'' @
   cp ''                }\<newline>'' @
   cp ''            }\<newline>'' @
   cp ''\<newline>'' @
   cp ''            stages.push({\<newline>'' @
   cp ''                stage: 1,\<newline>'' @
   cp ''                name: 'Face Pixel Extraction',\<newline>'' @
   cp ''                status: 'PASS',\<newline>'' @
   cp ''                timeMs: Date.now() - stage1Start,\<newline>'' @
   cp ''                data: { eyeBox: eyePixelData.box, mode: 'identitySafe-eye-lock' }\<newline>'' @
   cp ''            })\<newline>'' @
   cp ''        } else if (identitySafe) {\<newline>'' @
   cp ''            stages.push({\<newline>'' @
   cp ''                stage: 1,\<newline>'' @
   cp ''                name: 'Face Pixel Extraction',\<newline>'' @
   cp ''                status: 'SKIP',\<newline>'' @
   cp ''                timeMs: Date.now() - stage1Start,\<newline>'' @
   cp ''                data: { reason: 'pixel correction disabled for nano-banana-pro' }\<newline>'' @
   cp ''            })\<newline>'' @
   cp ''        }\<newline>''"

text \<open>
  The file system is a map from paths to decoded file contents (code points, after the
  UTF-8 decoding and newline translation of \<open>read_text\<close>); a file that cannot be decoded
  or opened for another reason than its absence is not modelled, nor is a write that
  fails. \<open>read_text\<close> of a missing file raises; \<open>raise SystemExit(msg)\<close> with a string
  prints \<open>msg\<close> on standard error and ends the process with status 1, as does any
  uncaught exception; a script that runs to its last line ends with status 0.
\<close>

type_synonym store = "string \<rightharpoonup> str"

datatype outcome = Completed | SystemExit string | FileNotFoundError

definition exit_status :: "outcome \<Rightarrow> nat" where
  "exit_status r = (case r of Completed \<Rightarrow> 0 | SystemExit msg \<Rightarrow> 1 | FileNotFoundError \<Rightarrow> 1)"

definition diagnostic :: "error \<Rightarrow> string" where
  "diagnostic e = (case e of AnchorNotFound \<Rightarrow> ''marker not found''
                           | EndMarkerNotFound \<Rightarrow> ''end marker not found'')"

definition main :: "store \<Rightarrow> outcome \<times> store" where
  "main fs =
     (case fs path of
        None \<Rightarrow> (FileNotFoundError, fs)
      | Some text \<Rightarrow>
          (case replace text old end_marker replacement of
             Inl e \<Rightarrow> (SystemExit (diagnostic e), fs)
           | Inr text' \<Rightarrow> (Completed, fs(path \<mapsto> text'))))"

section \<open>Occurrences\<close>

text \<open>
  \<open>occurs_at text sub k\<close>: the literal \<open>sub\<close> occurs in \<open>text\<close> at offset \<open>k\<close>, that is
  \<open>text[k:k+len(sub)] == sub\<close>. \<open>first_from text sub s e\<close>: \<open>e\<close> is the offset of the first
  occurrence of \<open>sub\<close> at or after offset \<open>s\<close>.
\<close>

definition occurs_at :: "'a list \<Rightarrow> 'a list \<Rightarrow> nat \<Rightarrow> bool" where
  "occurs_at text sub k \<longleftrightarrow> k \<le> length text \<and> prefix sub (drop k text)"

definition first_from :: "'a list \<Rightarrow> 'a list \<Rightarrow> nat \<Rightarrow> nat \<Rightarrow> bool" where
  "first_from text sub s e \<longleftrightarrow>
     s \<le> e \<and> occurs_at text sub e \<and> (\<forall>j\<in>{s..<e}. \<not> occurs_at text sub j)"

lemmas eval_defs =
  replace_def str_find_def Let_def slice_to_def slice_from_def slice_bound_def

section \<open>What \<open>find\<close> and the slices compute\<close>

lemma find_scan_cases:
  "(find_scan sub xs i = - 1 \<and> (\<forall>k\<le>length xs. \<not> prefix sub (drop k xs))) \<or>
   (\<exists>k\<le>length xs. find_scan sub xs i = int (i + k) \<and> prefix sub (drop k xs) \<and>
        (\<forall>j<k. \<not> prefix sub (drop j xs)))"
proof (induction xs arbitrary: i)
  case Nil
  show ?case by simp
next
  case (Cons x xs)
  show ?case
  proof (cases "prefix sub (x # xs)")
    case True
    then have "find_scan sub (x # xs) i = int (i + 0) \<and> prefix sub (drop 0 (x # xs))"
      by simp
    then show ?thesis by blast
  next
    case False
    from Cons.IH [of "Suc i"] show ?thesis
    proof
      assume a: "find_scan sub xs (Suc i) = - 1 \<and> (\<forall>k\<le>length xs. \<not> prefix sub (drop k xs))"
      have "\<forall>k\<le>length (x # xs). \<not> prefix sub (drop k (x # xs))"
      proof (intro allI impI)
        fix k assume "k \<le> length (x # xs)"
        then show "\<not> prefix sub (drop k (x # xs))"
          using a False by (cases k) auto
      qed
      with a False show ?thesis by simp
    next
      assume "\<exists>k\<le>length xs. find_scan sub xs (Suc i) = int (Suc i + k) \<and>
                prefix sub (drop k xs) \<and> (\<forall>j<k. \<not> prefix sub (drop j xs))"
      then obtain k where k: "k \<le> length xs" "find_scan sub xs (Suc i) = int (Suc i + k)"
        "prefix sub (drop k xs)" "\<forall>j<k. \<not> prefix sub (drop j xs)" by blast
      have "\<forall>j<Suc k. \<not> prefix sub (drop j (x # xs))"
      proof (intro allI impI)
        fix j assume "j < Suc k"
        then show "\<not> prefix sub (drop j (x # xs))"
          using k(4) False by (cases j) auto
      qed
      moreover have "find_scan sub (x # xs) i = int (i + Suc k)"
        using False k(2) by simp
      moreover have "prefix sub (drop (Suc k) (x # xs))" using k(3) by simp
      moreover have "Suc k \<le> length (x # xs)" using k(1) by simp
      ultimately show ?thesis by blast
    qed
  qed
qed

lemma str_find_nat:
  "s \<le> length text \<Longrightarrow> str_find text sub (int s) = find_scan sub (drop s text) s"
  by (simp add: str_find_def Let_def)

lemma str_find_cases:
  assumes "s \<le> length text"
  shows "(str_find text sub (int s) = - 1 \<and> (\<forall>k\<ge>s. \<not> occurs_at text sub k)) \<or>
         (\<exists>e. str_find text sub (int s) = int e \<and> first_from text sub s e)"
proof -
  from find_scan_cases [of sub "drop s text" s] show ?thesis
  proof
    assume a: "find_scan sub (drop s text) s = - 1 \<and>
               (\<forall>k\<le>length (drop s text). \<not> prefix sub (drop k (drop s text)))"
    have "\<forall>k\<ge>s. \<not> occurs_at text sub k"
    proof (intro allI impI)
      fix k assume sk: "s \<le> k"
      show "\<not> occurs_at text sub k"
      proof
        assume "occurs_at text sub k"
        then have "k \<le> length text" "prefix sub (drop k text)" by (simp_all add: occurs_at_def)
        moreover have "drop (k - s) (drop s text) = drop k text" using sk by simp
        moreover have "k - s \<le> length (drop s text)" using \<open>k \<le> length text\<close> by simp
        ultimately show False using a by metis
      qed
    qed
    with a assms show ?thesis by (simp add: str_find_nat)
  next
    assume "\<exists>k\<le>length (drop s text). find_scan sub (drop s text) s = int (s + k) \<and>
              prefix sub (drop k (drop s text)) \<and> (\<forall>j<k. \<not> prefix sub (drop j (drop s text)))"
    then obtain k where k: "k \<le> length (drop s text)"
        "find_scan sub (drop s text) s = int (s + k)"
        "prefix sub (drop k (drop s text))" "\<forall>j<k. \<not> prefix sub (drop j (drop s text))"
      by blast
    have occ: "occurs_at text sub (s + k)"
      using k(1,3) assms by (simp add: occurs_at_def add.commute)
    have "\<forall>j\<in>{s..<s + k}. \<not> occurs_at text sub j"
    proof
      fix j assume j: "j \<in> {s..<s + k}"
      then have "j - s < k" by auto
      with k(4) have "\<not> prefix sub (drop (j - s) (drop s text))" by blast
      moreover have "drop (j - s) (drop s text) = drop j text" using j by simp
      ultimately show "\<not> occurs_at text sub j" by (simp add: occurs_at_def)
    qed
    with occ have "first_from text sub s (s + k)" by (simp add: first_from_def)
    moreover have "str_find text sub (int s) = int (s + k)"
      using k(2) assms by (simp only: str_find_nat)
    ultimately show ?thesis by blast
  qed
qed

lemma first_from_unique:
  "first_from text sub s e \<Longrightarrow> first_from text sub s e' \<Longrightarrow> e = e'"
  unfolding first_from_def
  by (metis atLeastLessThan_iff linorder_neqE_nat)

lemma slice_to_nat: "slice_to text (int s) = take s text"
  by (cases "s \<le> length text") (simp_all add: slice_to_def slice_bound_def min_def)

lemma slice_from_nat: "slice_from text (int e + 1) = drop (Suc e) text"
proof -
  have "nat (int e + 1) = Suc e" by simp
  then show ?thesis
    by (cases "Suc e \<le> length text") (simp_all add: slice_from_def slice_bound_def min_def)
qed

lemma replace_found:
  "str_find text a 0 = int s \<Longrightarrow> str_find text m (int s) = int e \<Longrightarrow>
   replace text a m r = Inr (take s text @ r @ drop (Suc e) text)"
  by (simp add: replace_def Let_def slice_to_nat slice_from_nat)

lemma replace_cases:
  "(replace text a m r = Inl AnchorNotFound \<and> str_find text a 0 = - 1 \<and>
      (\<forall>k. \<not> occurs_at text a k)) \<or>
   (\<exists>s. str_find text a 0 = int s \<and> first_from text a 0 s \<and>
      str_find text m (int s) = - 1 \<and> replace text a m r = Inl EndMarkerNotFound \<and>
      (\<forall>k\<ge>s. \<not> occurs_at text m k)) \<or>
   (\<exists>s e. str_find text a 0 = int s \<and> first_from text a 0 s \<and>
      str_find text m (int s) = int e \<and> first_from text m s e \<and>
      replace text a m r = Inr (take s text @ r @ drop (Suc e) text))"
proof -
  have "(str_find text a (int 0) = - 1 \<and> (\<forall>k\<ge>0. \<not> occurs_at text a k)) \<or>
        (\<exists>s. str_find text a (int 0) = int s \<and> first_from text a 0 s)"
    by (rule str_find_cases) simp
  then show ?thesis
  proof
    assume "str_find text a (int 0) = - 1 \<and> (\<forall>k\<ge>0. \<not> occurs_at text a k)"
    then show ?thesis by (simp add: replace_def)
  next
    assume "\<exists>s. str_find text a (int 0) = int s \<and> first_from text a 0 s"
    then obtain s where s: "str_find text a 0 = int s" "first_from text a 0 s" by auto
    then have sl: "s \<le> length text" by (simp add: first_from_def occurs_at_def)
    from str_find_cases [OF sl, of m] show ?thesis
    proof
      assume a: "str_find text m (int s) = - 1 \<and> (\<forall>k\<ge>s. \<not> occurs_at text m k)"
      then have "replace text a m r = Inl EndMarkerNotFound"
        using s(1) by (simp add: replace_def Let_def)
      with a s show ?thesis by blast
    next
      assume "\<exists>e. str_find text m (int s) = int e \<and> first_from text m s e"
      then obtain e where e: "str_find text m (int s) = int e" "first_from text m s e" by blast
      with s replace_found [OF s(1) e(1), of r] show ?thesis by blast
    qed
  qed
qed

lemma str_find_first:
  assumes "s \<le> length text" and "str_find text sub (int s) = int e"
  shows "first_from text sub s e"
proof -
  from str_find_cases [OF assms(1), of sub] assms(2)
  obtain e' where "int e = int e'" "first_from text sub s e'" by auto
  then show ?thesis by simp
qed

lemma str_find_first0:
  assumes "str_find text sub 0 = int s"
  shows "first_from text sub 0 s"
proof -
  have "str_find text sub (int 0) = int s" using assms by simp
  then show ?thesis by (rule str_find_first [rotated]) simp
qed

lemma str_find_absent:
  assumes "str_find text sub 0 = - 1"
  shows "\<not> occurs_at text sub k"
proof -
  have "0 \<le> length text" by simp
  from str_find_cases [OF this, of sub] assms show ?thesis by auto
qed

lemma first_from_bounds:
  "first_from text sub s e \<Longrightarrow> s \<le> e \<and> e \<le> length text \<and> prefix sub (drop e text)"
  by (simp add: first_from_def occurs_at_def)

lemma replace_success:
  assumes "replace text a m r = Inr out"
  shows "\<exists>s e. str_find text a 0 = int s \<and> first_from text a 0 s \<and>
           str_find text m (int s) = int e \<and> first_from text m s e \<and>
           out = take s text @ r @ drop (Suc e) text"
  using replace_cases [of "text" a m r] assms by auto

lemma marker_tail:
  assumes "prefix m (drop e text)"
  shows "prefix (tl m) (drop (Suc e) text)"
proof (cases m)
  case Nil
  then show ?thesis by simp
next
  case (Cons x m')
  with assms obtain zs where z: "drop e text = x # (m' @ zs)"
    by (auto simp add: prefix_def)
  have "drop (Suc e) text = tl (drop e text)"
    by (simp add: drop_Suc tl_drop)
  with z have "drop (Suc e) text = m' @ zs" by simp
  then show ?thesis using Cons by simp
qed

lemma marker_head:
  assumes "prefix m (drop e text)" and "m \<noteq> []"
  shows "e < length text \<and> text ! e = hd m \<and> drop e text = hd m # drop (Suc e) text"
proof -
  from assms obtain x m' where m: "m = x # m'" by (cases m) auto
  with assms obtain zs where z: "drop e text = x # zs" by (auto simp add: prefix_def)
  then have lt: "e < length text" by (metis drop_all list.distinct(1) not_le)
  then have "drop e text = text ! e # drop (Suc e) text" by (simp add: Cons_nth_drop_Suc)
  with z m lt show ?thesis by simp
qed

section \<open>The two worked examples\<close>

text \<open>
  Claim C4, as the code computes it: on the text \<open>X<<START>>a<<START>>b<<END>>Y\<close> with
  anchor \<open><<START>>\<close>, end marker \<open><<END>>\<close> and the empty replacement, the call succeeds
  and returns \<open>X<END>>Y\<close>: the first anchor is at offset 1, the marker is found at offset
  21, and the tail is kept from offset 22 on, one character into the marker.
\<close>

theorem example_two_anchors_result:
  "replace ''X<<START>>a<<START>>b<<END>>Y'' ''<<START>>'' ''<<END>>'' '''' = Inr ''X<END>>Y''"
  by (simp add: eval_defs)

text \<open>The result that claim C4 states, \<open>X<<END>>Y\<close>, is not what the call returns.\<close>

theorem example_two_anchors_counterexample:
  "replace ''X<<START>>a<<START>>b<<END>>Y'' ''<<START>>'' ''<<END>>'' ''''
     \<noteq> Inr ''X<<END>>Y''"
  by (simp add: eval_defs)

text \<open>
  Claim C5, as the code computes it: on the text \<open>abc<<START>>old<<END>>xyz\<close> with anchor
  \<open><<START>>\<close>, end marker \<open><<END>>\<close> and replacement \<open>new\<close>, the call succeeds and returns
  \<open>abcnew<END>>xyz\<close>: the replaced region starts at the anchor's offset, so the anchor is
  replaced too, and the tail is kept from one character into the marker.
\<close>

theorem example_simple_result:
  "replace ''abc<<START>>old<<END>>xyz'' ''<<START>>'' ''<<END>>'' ''new''
     = Inr ''abcnew<END>>xyz''"
  by (simp add: eval_defs)

text \<open>
  The result that claim C5 states, \<open>abc<<START>>new<<END>>xyz\<close>, is not what the call
  returns.
\<close>

theorem example_simple_counterexample:
  "replace ''abc<<START>>old<<END>>xyz'' ''<<START>>'' ''<<END>>'' ''new''
     \<noteq> Inr ''abc<<START>>new<<END>>xyz''"
  by (simp add: eval_defs)

section \<open>The splice\<close>

text \<open>
  Claim C1 says that the tail is kept from the end marker's offset on, so that the marker
  reappears whole after the spliced block. On the text \<open>a[b]c\<close> with anchor \<open>[\<close>, marker
  \<open>]\<close> and replacement \<open>X\<close> the anchor is found at offset 1 and the marker at offset 3, and
  the call does not return \<open>text[0..1) + X + text[3..)\<close>.
\<close>

theorem splice_from_marker_offset_counterexample:
  "str_find ''a[b]c'' ''['' 0 = 1 \<and> str_find ''a[b]c'' '']'' 1 = 3 \<and>
   replace ''a[b]c'' ''['' '']'' ''X'' \<noteq> Inr (take 1 ''a[b]c'' @ ''X'' @ drop 3 ''a[b]c'')"
  by (simp add: eval_defs)

text \<open>
  Claim C1, amended: whenever the call succeeds, with the anchor found at offset \<open>s\<close> and
  the end marker found at offset \<open>e\<close>, the result is
  \<open>text[0..s) + replacement + text[e+1..)\<close>: every character at an offset below \<open>s\<close> is
  unchanged, every character at an offset above \<open>e\<close> is unchanged (at its shifted place),
  and the end marker without its first character follows the spliced block immediately.
\<close>

theorem splice_locality:
  assumes "replace text a m r = Inr out"
  shows "\<exists>s e. str_find text a 0 = int s \<and> str_find text m (int s) = int e \<and>
           out = take s text @ r @ drop (Suc e) text \<and>
           (\<forall>i<s. out ! i = text ! i) \<and>
           (\<forall>j. e < j \<and> j < length text \<longrightarrow> out ! (s + length r + (j - Suc e)) = text ! j) \<and>
           prefix (tl m) (drop (s + length r) out)"
proof -
  from replace_success [OF assms] obtain s e where
    se: "str_find text a 0 = int s" "first_from text a 0 s"
        "str_find text m (int s) = int e" "first_from text m s e"
        "out = take s text @ r @ drop (Suc e) text"
    by blast
  from first_from_bounds [OF se(2)] have sl: "s \<le> length text" by simp
  from first_from_bounds [OF se(4)] have pm: "prefix m (drop e text)" by simp
  have len: "length (take s text) = s" using sl by simp
  have before: "\<forall>i<s. out ! i = text ! i"
    using se(5) len by (simp add: nth_append)
  have after: "\<forall>j. e < j \<and> j < length text \<longrightarrow> out ! (s + length r + (j - Suc e)) = text ! j"
  proof (intro allI impI)
    fix j assume j: "e < j \<and> j < length text"
    have "out ! (s + length r + (j - Suc e)) = (take s text @ r @ drop (Suc e) text) ! (length (take s text) + (length r + (j - Suc e)))"
      using se(5) len by (simp add: add.assoc)
    also have "\<dots> = (r @ drop (Suc e) text) ! (length r + (j - Suc e))"
      by (simp only: nth_append_length_plus)
    also have "\<dots> = drop (Suc e) text ! (j - Suc e)"
      by (simp only: nth_append_length_plus)
    also have "\<dots> = text ! j" using j by simp
    finally show "out ! (s + length r + (j - Suc e)) = text ! j" .
  qed
  have "drop (s + length r) out = drop (Suc e) text"
    using se(5) len by simp
  with marker_tail [OF pm] have "prefix (tl m) (drop (s + length r) out)" by simp
  with se(1,3,5) before after show ?thesis by blast
qed

theorem splice_locality_witness:
  "replace ''a[b]c'' ''['' '']'' ''X'' = Inr ''aXc'' \<and>
   (\<exists>s e. str_find ''a[b]c'' ''['' 0 = int s \<and> str_find ''a[b]c'' '']'' (int s) = int e \<and>
           ''aXc'' = take s ''a[b]c'' @ ''X'' @ drop (Suc e) ''a[b]c'' \<and>
           (\<forall>i<s. ''aXc'' ! i = ''a[b]c'' ! i) \<and>
           (\<forall>j. e < j \<and> j < length ''a[b]c'' \<longrightarrow>
               ''aXc'' ! (s + length ''X'' + (j - Suc e)) = ''a[b]c'' ! j) \<and>
           prefix (tl '']'') (drop (s + length ''X'') ''aXc''))"
proof -
  have h: "replace ''a[b]c'' ''['' '']'' ''X'' = Inr ''aXc''"
    by (simp add: eval_defs)
  show ?thesis by (rule conjI [OF h splice_locality [OF h]])
qed

text \<open>
  Claim C2 ends by saying that the end marker does not reappear verbatim in the output.
  With the script's own literals it does: the replacement ends with the newline that the
  marker starts with. On the text made of the anchor line followed by the marker, the
  output is the replacement followed by the marker without its newline, and the marker
  occurs in it at offset 1685, the offset of the replacement's last character.
\<close>

theorem marker_absent_from_output_counterexample:
  "replace (old @ end_marker) old end_marker replacement = Inr (replacement @ tl end_marker) \<and>
   occurs_at (replacement @ tl end_marker) end_marker 1685"
proof
  show "replace (old @ end_marker) old end_marker replacement = Inr (replacement @ tl end_marker)"
    by (simp add: eval_defs old_def end_marker_def cp_def)
  show "occurs_at (replacement @ tl end_marker) end_marker 1685"
    by (simp add: replacement_def cp_def end_marker_def occurs_at_def)
qed

text \<open>
  Claim C2, amended: when the anchor is found at offset \<open>s\<close> and the search for the end
  marker from offset \<open>s\<close> succeeds at offset \<open>e\<close>, then \<open>s \<le> e\<close> and the output is
  \<open>text[0..s) + replacement + text[e+1..)\<close>. For a non-empty marker exactly one character
  of the text from offset \<open>e\<close> on is dropped, the one at offset \<open>e\<close>, which is the first
  character of the marker; the kept tail starts with the rest of the marker.
\<close>

theorem splice_drops_marker_head:
  assumes "str_find text a 0 = int s" and "str_find text m (int s) = int e"
  shows "replace text a m r = Inr (take s text @ r @ drop (Suc e) text) \<and> s \<le> e \<and>
         (m \<noteq> [] \<longrightarrow> e < length text \<and> text ! e = hd m \<and>
            drop e text = hd m # drop (Suc e) text \<and>
            prefix (tl m) (drop (Suc e) text))"
proof -
  from first_from_bounds [OF str_find_first0 [OF assms(1)]] have sl: "s \<le> length text"
    by simp
  from first_from_bounds [OF str_find_first [OF sl assms(2)]]
  have e: "s \<le> e" "prefix m (drop e text)" by simp_all
  from marker_head [OF e(2)] marker_tail [OF e(2)] e(1) replace_found [OF assms, of r]
  show ?thesis by blast
qed

theorem splice_drops_marker_head_witness:
  "str_find ''a[b]c'' ''['' 0 = int 1 \<and> str_find ''a[b]c'' '']'' (int 1) = int 3 \<and>
   replace ''a[b]c'' ''['' '']'' ''X'' = Inr ''aXc'' \<and> '']'' \<noteq> [] \<and>
   ''a[b]c'' ! 3 = CHR '']'' \<and> drop 3 ''a[b]c'' = CHR '']'' # drop 4 ''a[b]c''"
proof -
  have h1: "str_find ''a[b]c'' ''['' 0 = int 1" by (simp add: eval_defs)
  have h2: "str_find ''a[b]c'' '']'' (int 1) = int 3" by (simp add: eval_defs)
  from splice_drops_marker_head [OF h1 h2, of "''X''"] h1 h2 show ?thesis by simp
qed

section \<open>Where the two searches start\<close>

text \<open>
  With the literals as parameters, \<open>find\<close> is given the anchor's offset \<open>s\<close> itself: once
  the anchor is found, the call fails for want of an end marker exactly when the marker
  has no occurrence at any offset \<open>k \<ge> s\<close>.
\<close>

lemma end_search_general:
  assumes "str_find text a 0 = int s"
  shows "(replace text a m r = Inl EndMarkerNotFound \<longleftrightarrow> (\<forall>k\<ge>s. \<not> occurs_at text m k)) \<and>
         (occurs_at text m s \<longrightarrow> replace text a m r = Inr (take s text @ r @ drop (Suc s) text))"
proof -
  from first_from_bounds [OF str_find_first0 [OF assms]] have sl: "s \<le> length text"
    by simp
  from str_find_cases [OF sl, of m] show ?thesis
  proof
    assume c: "str_find text m (int s) = - 1 \<and> (\<forall>k\<ge>s. \<not> occurs_at text m k)"
    then have "replace text a m r = Inl EndMarkerNotFound"
      using assms by (simp add: replace_def Let_def)
    with c show ?thesis by auto
  next
    assume "\<exists>e. str_find text m (int s) = int e \<and> first_from text m s e"
    then obtain e where e: "str_find text m (int s) = int e" "first_from text m s e"
      by blast
    have r: "replace text a m r = Inr (take s text @ r @ drop (Suc e) text)"
      by (rule replace_found [OF assms e(1)])
    have occ: "s \<le> e \<and> occurs_at text m e" using e(2) by (simp add: first_from_def)
    have "e = s" if "occurs_at text m s"
    proof (rule ccontr)
      assume "e \<noteq> s"
      with occ have "s \<in> {s..<e}" by simp
      with e(2) that show False by (simp add: first_from_def)
    qed
    with r occ show ?thesis by auto
  qed
qed

text \<open>
  Claim C6: when the anchor occurs in the text at offsets \<open>o1 < o2\<close> and \<open>o1\<close> is its first
  occurrence, the first search returns \<open>o1\<close> and the region starts there. The call fails,
  and then with \<open>EndMarkerNotFound\<close>, exactly when the end marker has no occurrence at
  or after \<open>o1\<close>. Otherwise, with \<open>e\<close> the first occurrence of the marker at or after
  \<open>o1\<close>, the call returns \<open>text[0..o1) + replacement + text[e+1..)\<close> for every
  replacement: the output begins with the \<open>o1\<close> characters \<open>text[0..o1)\<close>, and the
  replacement follows them at offset \<open>o1\<close>. The occurrence at \<open>o2\<close> takes no part in the
  result.
\<close>

theorem first_anchor_occurrence_wins:
  assumes "occurs_at text a o1" and "\<forall>j<o1. \<not> occurs_at text a j"
    and "occurs_at text a o2" and "o1 < o2"
  shows "str_find text a 0 = int o1 \<and>
         (\<forall>r. replace text a m r = Inl EndMarkerNotFound \<longleftrightarrow>
                (\<forall>k\<ge>o1. \<not> occurs_at text m k)) \<and>
         (\<forall>r. replace text a m r \<noteq> Inl AnchorNotFound) \<and>
         (\<forall>e r. first_from text m o1 e \<longrightarrow>
            replace text a m r = Inr (take o1 text @ r @ drop (Suc e) text) \<and>
            length (take o1 text) = o1 \<and>
            take o1 (take o1 text @ r @ drop (Suc e) text) = take o1 text \<and>
            prefix r (drop o1 (take o1 text @ r @ drop (Suc e) text)))"
proof -
  have f: "first_from text a 0 o1" using assms(1,2) by (simp add: first_from_def)
  have "0 \<le> length text" by simp
  from str_find_cases [OF this, of a] assms(1)
  obtain s where s: "str_find text a (int 0) = int s" "first_from text a 0 s" by auto
  from first_from_unique [OF f s(2)] s(1) have find: "str_find text a 0 = int o1" by simp
  have ol: "o1 \<le> length text" using assms(1) by (simp add: occurs_at_def)
  have fail: "\<forall>r. replace text a m r = Inl EndMarkerNotFound \<longleftrightarrow>
                (\<forall>k\<ge>o1. \<not> occurs_at text m k)"
    using end_search_general [OF find, of m] by blast
  have found: "\<forall>r. replace text a m r \<noteq> Inl AnchorNotFound"
  proof
    fix r
    from replace_cases [of "text" a m r] find
    show "replace text a m r \<noteq> Inl AnchorNotFound" by auto
  qed
  have ok: "\<forall>e r. first_from text m o1 e \<longrightarrow>
            replace text a m r = Inr (take o1 text @ r @ drop (Suc e) text) \<and>
            length (take o1 text) = o1 \<and>
            take o1 (take o1 text @ r @ drop (Suc e) text) = take o1 text \<and>
            prefix r (drop o1 (take o1 text @ r @ drop (Suc e) text))"
  proof (intro allI impI)
    fix e r assume fe: "first_from text m o1 e"
    from str_find_cases [OF ol, of m] fe
    obtain e' where e': "str_find text m (int o1) = int e'" "first_from text m o1 e'"
      by (auto simp add: first_from_def)
    from first_from_unique [OF fe e'(2)] e'(1) have "str_find text m (int o1) = int e"
      by simp
    from replace_found [OF find this, of r] ol
    show "replace text a m r = Inr (take o1 text @ r @ drop (Suc e) text) \<and>
            length (take o1 text) = o1 \<and>
            take o1 (take o1 text @ r @ drop (Suc e) text) = take o1 text \<and>
            prefix r (drop o1 (take o1 text @ r @ drop (Suc e) text))"
      by simp
  qed
  from find fail found ok show ?thesis by blast
qed

theorem first_anchor_occurrence_wins_witness:
  "occurs_at ''X<<START>>a<<START>>b<<END>>Y'' ''<<START>>'' 1 \<and>
   \<not> occurs_at ''X<<START>>a<<START>>b<<END>>Y'' ''<<START>>'' 0 \<and>
   occurs_at ''X<<START>>a<<START>>b<<END>>Y'' ''<<START>>'' 11 \<and> (1::nat) < 11 \<and>
   first_from ''X<<START>>a<<START>>b<<END>>Y'' ''<<END>>'' 1 21 \<and>
   str_find ''X<<START>>a<<START>>b<<END>>Y'' ''<<START>>'' 0 = int 1 \<and>
   replace ''X<<START>>a<<START>>b<<END>>Y'' ''<<START>>'' ''<<END>>'' ''new''
     = Inr ''Xnew<END>>Y'' \<and>
   replace ''X<<START>>a<<START>>b<<END>>Y'' ''<<START>>'' ''<<END>>'' ''<<START>> nested''
     = Inr ''X<<START>> nested<END>>Y'' \<and>
   occurs_at ''[x[y'' ''['' 0 \<and> occurs_at ''[x[y'' ''['' 2 \<and> (0::nat) < 2 \<and>
   str_find ''[x[y'' '']'' 0 = - 1 \<and>
   replace ''[x[y'' ''['' '']'' ''new'' = Inl EndMarkerNotFound"
proof -
  let ?t = "''X<<START>>a<<START>>b<<END>>Y''"
  have h1: "occurs_at ?t ''<<START>>'' 1" by (simp add: occurs_at_def)
  have h2: "\<forall>j<1. \<not> occurs_at ?t ''<<START>>'' j" by (simp add: occurs_at_def)
  have h3: "occurs_at ?t ''<<START>>'' 11" by (simp add: occurs_at_def)
  have h4: "(1::nat) < 11" by simp
  have "str_find ?t ''<<END>>'' (int 1) = int 21" by (simp add: eval_defs)
  then have h5: "first_from ?t ''<<END>>'' 1 21" by (rule str_find_first [rotated]) simp
  note thm1 = first_anchor_occurrence_wins [OF h1 h2 h3 h4, of "''<<END>>''"]
  from thm1 have g1: "str_find ?t ''<<START>>'' 0 = int 1" by blast
  from thm1 h5 have "replace ?t ''<<START>>'' ''<<END>>'' ''new''
      = Inr (take 1 ?t @ ''new'' @ drop (Suc 21) ?t)" by blast
  then have g2: "replace ?t ''<<START>>'' ''<<END>>'' ''new'' = Inr ''Xnew<END>>Y''"
    by simp
  from thm1 h5 have "replace ?t ''<<START>>'' ''<<END>>'' ''<<START>> nested''
      = Inr (take 1 ?t @ ''<<START>> nested'' @ drop (Suc 21) ?t)" by blast
  then have g3: "replace ?t ''<<START>>'' ''<<END>>'' ''<<START>> nested''
      = Inr ''X<<START>> nested<END>>Y''"
    by simp
  have k1: "occurs_at ''[x[y'' ''['' 0" by (simp add: occurs_at_def)
  have k2: "\<forall>j<0. \<not> occurs_at ''[x[y'' ''['' j" by simp
  have k3: "occurs_at ''[x[y'' ''['' 2" by (simp add: occurs_at_def)
  have k4: "(0::nat) < 2" by simp
  have k5: "str_find ''[x[y'' '']'' 0 = - 1" by (simp add: eval_defs)
  then have k6: "\<forall>k\<ge>0. \<not> occurs_at ''[x[y'' '']'' k" by (simp add: str_find_absent)
  from first_anchor_occurrence_wins [OF k1 k2 k3 k4, of "'']''"] k6
  have g4: "replace ''[x[y'' ''['' '']'' ''new'' = Inl EndMarkerNotFound" by blast
  from h1 h2 h3 h4 h5 g1 g2 g3 k1 k3 k4 k5 g4 show ?thesis by simp
qed

text \<open>
  Claim C10: whenever the call succeeds, the end marker's offset \<open>e\<close> is at least the
  anchor's offset \<open>s\<close>, and both lie within the text. So the region \<open>[s, e)\<close> has a
  non-negative length, the two slice bounds \<open>s\<close> and \<open>e + 1\<close> are non-negative and the
  slices are the plain prefix and suffix, the output has
  \<open>s + len(replacement) + (len(text) - (e + 1))\<close> characters, and no occurrence of the
  marker strictly before the anchor is the one that bounds the region.
\<close>

theorem region_not_negative:
  assumes "replace text a m r = Inr out"
  shows "\<exists>s e. str_find text a 0 = int s \<and> str_find text m (int s) = int e \<and>
           s \<le> e \<and> e \<le> length text \<and>
           slice_to text (int s) = take s text \<and>
           slice_from text (int e + 1) = drop (Suc e) text \<and>
           length out = s + length r + (length text - Suc e) \<and>
           (\<forall>k<s. occurs_at text m k \<longrightarrow> k \<noteq> e)"
proof -
  from replace_success [OF assms] obtain s e where
    se: "str_find text a 0 = int s" "first_from text a 0 s"
        "str_find text m (int s) = int e" "first_from text m s e"
        "out = take s text @ r @ drop (Suc e) text"
    by blast
  from first_from_bounds [OF se(2)] have sl: "s \<le> length text" by simp
  from first_from_bounds [OF se(4)] have e: "s \<le> e" "e \<le> length text" by simp_all
  have "length out = s + length r + (length text - Suc e)"
    using se(5) sl by simp
  moreover have "\<forall>k<s. occurs_at text m k \<longrightarrow> k \<noteq> e" using e(1) by auto
  ultimately show ?thesis
    using se(1,3) e slice_to_nat [of "text" s] slice_from_nat [of "text" e] by blast
qed

theorem region_not_negative_witness:
  "replace ''ab]c[d]e'' ''['' '']'' ''XY'' = Inr ''ab]cXYe'' \<and>
   (\<exists>s e. str_find ''ab]c[d]e'' ''['' 0 = int s \<and> str_find ''ab]c[d]e'' '']'' (int s) = int e \<and>
           s \<le> e \<and> e \<le> length ''ab]c[d]e'' \<and>
           slice_to ''ab]c[d]e'' (int s) = take s ''ab]c[d]e'' \<and>
           slice_from ''ab]c[d]e'' (int e + 1) = drop (Suc e) ''ab]c[d]e'' \<and>
           length ''ab]cXYe'' = s + length ''XY'' + (length ''ab]c[d]e'' - Suc e) \<and>
           (\<forall>k<s. occurs_at ''ab]c[d]e'' '']'' k \<longrightarrow> k \<noteq> e))"
proof -
  have h: "replace ''ab]c[d]e'' ''['' '']'' ''XY'' = Inr ''ab]cXYe''"
    by (simp add: eval_defs)
  show ?thesis by (rule conjI [OF h region_not_negative [OF h]])
qed

section \<open>The script's own literals\<close>

lemma end_marker_split: "end_marker = 10 # tl end_marker"
  by (simp add: end_marker_def cp_def)

lemma replacement_length: "length replacement = 1686"
  by (simp add: replacement_def cp_def)

lemma replacement_drop: "drop 1685 (replacement @ ys) = 10 # ys"
  by (simp add: replacement_def cp_def)




text \<open>
  The replacement ends with a newline, so on every successful run the end marker stands
  whole in the output, starting at the replacement's last character.
\<close>

lemma script_marker_in_output:
  assumes "replace text old end_marker replacement = Inr out"
  shows "\<exists>s. str_find text old 0 = int s \<and> occurs_at out end_marker (s + 1685)"
proof -
  from replace_success [OF assms] obtain s e where
    se: "str_find text old 0 = int s" "first_from text old 0 s"
        "first_from text end_marker s e"
        "out = take s text @ replacement @ drop (Suc e) text"
    by blast
  from first_from_bounds [OF se(2)] have sl: "s \<le> length text" by simp
  from first_from_bounds [OF se(3)] have "prefix end_marker (drop e text)" by simp
  from marker_tail [OF this] obtain rest where
    rest: "drop (Suc e) text = tl end_marker @ rest" by (auto simp add: prefix_def)
  have "drop (s + 1685) out = drop 1685 (replacement @ tl end_marker @ rest)"
    using se(4) rest sl by simp
  also have "\<dots> = 10 # tl end_marker @ rest" by (rule replacement_drop)
  also have "\<dots> = end_marker @ rest" using end_marker_split by simp
  finally have "prefix end_marker (drop (s + 1685) out)" by simp
  moreover have "s + 1685 \<le> length out"
    using se(4) sl replacement_length by simp
  ultimately have "occurs_at out end_marker (s + 1685)" by (simp add: occurs_at_def)
  with se(1) show ?thesis by blast
qed

section \<open>The run of the script\<close>

lemma main_read:
  assumes "fs path = Some text"
  shows "main fs = (case replace text old end_marker replacement of
                      Inl e \<Rightarrow> (SystemExit (diagnostic e), fs)
                    | Inr text' \<Rightarrow> (Completed, fs(path \<mapsto> text')))"
  using assms by (simp add: main_def)

lemma main_missing: "fs path = None \<Longrightarrow> main fs = (FileNotFoundError, fs)"
  by (simp add: main_def)

text \<open>
  Claim C7: a run that fails, with either error, ends before the write and leaves the
  stored artifact, and the whole store, as it was. A run either completes, and then the
  artifact holds the complete rewritten text and nothing else has changed, or it does not
  complete, and then nothing has been written.
\<close>

theorem main_all_or_nothing:
  "(\<forall>text e. fs path = Some text \<and> replace text old end_marker replacement = Inl e \<longrightarrow>
        main fs = (SystemExit (diagnostic e), fs)) \<and>
   (fst (main fs) \<noteq> Completed \<longrightarrow> snd (main fs) = fs) \<and>
   (fst (main fs) = Completed \<longrightarrow>
      (\<exists>text out. fs path = Some text \<and> replace text old end_marker replacement = Inr out \<and>
         snd (main fs) = fs(path \<mapsto> out)))"
proof (cases "fs path")
  case None
  then show ?thesis by (simp add: main_missing)
next
  case (Some t)
  show ?thesis
  proof (cases "replace t old end_marker replacement")
    case (Inl e)
    with Some show ?thesis by (simp add: main_read)
  next
    case (Inr out)
    with Some show ?thesis by (simp add: main_read)
  qed
qed

theorem main_all_or_nothing_witness:
  "main [path \<mapsto> cp ''no anchors here'']
     = (SystemExit (diagnostic AnchorNotFound), [path \<mapsto> cp ''no anchors here'']) \<and>
   main [path \<mapsto> old] = (SystemExit (diagnostic EndMarkerNotFound), [path \<mapsto> old]) \<and>
   fst (main [path \<mapsto> old @ end_marker]) = Completed \<and>
   (\<exists>text out. [path \<mapsto> old @ end_marker] path = Some text \<and>
       replace text old end_marker replacement = Inr out \<and>
       snd (main [path \<mapsto> old @ end_marker]) = [path \<mapsto> old @ end_marker](path \<mapsto> out))"
proof -
  have h1: "[path \<mapsto> cp ''no anchors here''] path = Some (cp ''no anchors here'') \<and>
            replace (cp ''no anchors here'') old end_marker replacement = Inl AnchorNotFound"
    by (simp add: eval_defs old_def cp_def)
  have h2: "[path \<mapsto> old] path = Some old \<and>
            replace old old end_marker replacement = Inl EndMarkerNotFound"
    by (simp add: eval_defs old_def end_marker_def cp_def)
  have h3: "fst (main [path \<mapsto> old @ end_marker]) = Completed"
    by (simp add: main_def eval_defs old_def end_marker_def cp_def)
  from main_all_or_nothing [of "[path \<mapsto> cp ''no anchors here'']"] h1
  have g1: "main [path \<mapsto> cp ''no anchors here'']
     = (SystemExit (diagnostic AnchorNotFound), [path \<mapsto> cp ''no anchors here''])"
    by blast
  from main_all_or_nothing [of "[path \<mapsto> old]"] h2
  have g2: "main [path \<mapsto> old] = (SystemExit (diagnostic EndMarkerNotFound), [path \<mapsto> old])"
    by blast
  from main_all_or_nothing [of "[path \<mapsto> old @ end_marker]"] h3
  have g3: "\<exists>text out. [path \<mapsto> old @ end_marker] path = Some text \<and>
       replace text old end_marker replacement = Inr out \<and>
       snd (main [path \<mapsto> old @ end_marker]) = [path \<mapsto> old @ end_marker](path \<mapsto> out)"
    by blast
  from g1 g2 h3 g3 show ?thesis by blast
qed

text \<open>
  Claim C8: when the anchor occurs nowhere in the text of the artifact, the call fails
  with \<open>AnchorNotFound\<close> whatever the end marker and the replacement are, and the run ends
  with a non-zero status and the message \<open>marker not found\<close>, the store untouched. A
  missing end marker ends the run with a non-zero status and the other message,
  \<open>end marker not found\<close>. A successful call ends the run with status zero, the
  rewritten text stored.
\<close>

theorem anchor_absent_aborts:
  assumes "fs path = Some text"
  shows "((\<forall>k\<le>length text. \<not> occurs_at text old k) \<longrightarrow>
            (\<forall>m r. replace text old m r = Inl AnchorNotFound) \<and>
            main fs = (SystemExit ''marker not found'', fs) \<and>
            exit_status (fst (main fs)) \<noteq> 0) \<and>
         (replace text old end_marker replacement = Inl EndMarkerNotFound \<longrightarrow>
            main fs = (SystemExit ''end marker not found'', fs) \<and>
            exit_status (fst (main fs)) \<noteq> 0) \<and>
         (\<forall>out. replace text old end_marker replacement = Inr out \<longrightarrow>
            main fs = (Completed, fs(path \<mapsto> out)) \<and> exit_status (fst (main fs)) = 0)"
proof -
  have absent: "\<forall>m r. replace text old m r = Inl AnchorNotFound"
    if none: "\<forall>k\<le>length text. \<not> occurs_at text old k"
  proof (intro allI)
    fix m r
    have "\<not> first_from text old 0 s" for s
      using none by (auto simp add: first_from_def occurs_at_def)
    with replace_cases [of "text" old m r] show "replace text old m r = Inl AnchorNotFound"
      by blast
  qed
  have a: "(\<forall>k\<le>length text. \<not> occurs_at text old k) \<longrightarrow>
            (\<forall>m r. replace text old m r = Inl AnchorNotFound) \<and>
            main fs = (SystemExit ''marker not found'', fs) \<and>
            exit_status (fst (main fs)) \<noteq> 0"
  proof
    assume none: "\<forall>k\<le>length text. \<not> occurs_at text old k"
    from absent [OF none] have "replace text old end_marker replacement = Inl AnchorNotFound"
      by blast
    then have "main fs = (SystemExit ''marker not found'', fs)"
      using assms by (simp add: main_read diagnostic_def)
    with absent [OF none] show "(\<forall>m r. replace text old m r = Inl AnchorNotFound) \<and>
            main fs = (SystemExit ''marker not found'', fs) \<and>
            exit_status (fst (main fs)) \<noteq> 0"
      by (simp add: exit_status_def)
  qed
  have b: "replace text old end_marker replacement = Inl EndMarkerNotFound \<longrightarrow>
            main fs = (SystemExit ''end marker not found'', fs) \<and>
            exit_status (fst (main fs)) \<noteq> 0"
    using assms by (simp add: main_read diagnostic_def exit_status_def)
  have c: "\<forall>out. replace text old end_marker replacement = Inr out \<longrightarrow>
            main fs = (Completed, fs(path \<mapsto> out)) \<and> exit_status (fst (main fs)) = 0"
    using assms by (simp add: main_read exit_status_def)
  from a b c show ?thesis by blast
qed

theorem anchor_absent_aborts_witness:
  "[path \<mapsto> cp ''no anchors here''] path = Some (cp ''no anchors here'') \<and>
   str_find (cp ''no anchors here'') old 0 = - 1 \<and>
   main [path \<mapsto> cp ''no anchors here'']
     = (SystemExit ''marker not found'', [path \<mapsto> cp ''no anchors here'']) \<and>
   [path \<mapsto> old] path = Some old \<and>
   replace old old end_marker replacement = Inl EndMarkerNotFound \<and>
   main [path \<mapsto> old] = (SystemExit ''end marker not found'', [path \<mapsto> old]) \<and>
   [path \<mapsto> old @ end_marker] path = Some (old @ end_marker) \<and>
   replace (old @ end_marker) old end_marker replacement = Inr (replacement @ tl end_marker) \<and>
   exit_status (fst (main [path \<mapsto> old @ end_marker])) = 0"
proof -
  have p1: "[path \<mapsto> cp ''no anchors here''] path = Some (cp ''no anchors here'')" by simp
  have h0: "str_find (cp ''no anchors here'') old 0 = - 1"
    by (simp add: eval_defs old_def cp_def)
  then have h1: "\<forall>k\<le>length (cp ''no anchors here''). \<not> occurs_at (cp ''no anchors here'') old k"
    by (simp add: str_find_absent)
  have p2: "[path \<mapsto> old] path = Some old" by simp
  have h2: "replace old old end_marker replacement = Inl EndMarkerNotFound"
    by (simp add: eval_defs old_def end_marker_def cp_def)
  have p3: "[path \<mapsto> old @ end_marker] path = Some (old @ end_marker)" by simp
  have h3: "replace (old @ end_marker) old end_marker replacement
              = Inr (replacement @ tl end_marker)"
    by (simp add: eval_defs old_def end_marker_def cp_def)
  from anchor_absent_aborts [of "[path \<mapsto> cp ''no anchors here'']" "cp ''no anchors here''"] p1 h1
  have g1: "main [path \<mapsto> cp ''no anchors here'']
     = (SystemExit ''marker not found'', [path \<mapsto> cp ''no anchors here''])" by blast
  from anchor_absent_aborts [of "[path \<mapsto> old]" old] p2 h2
  have g2: "main [path \<mapsto> old] = (SystemExit ''end marker not found'', [path \<mapsto> old])"
    by blast
  from anchor_absent_aborts [of "[path \<mapsto> old @ end_marker]" "old @ end_marker"] p3 h3
  have g3: "exit_status (fst (main [path \<mapsto> old @ end_marker])) = 0" by blast
  from p1 h0 g1 p2 h2 g2 p3 h3 g3 show ?thesis by blast
qed

text \<open>
  Claim C9: the run has no hidden input. Two stores that hold the same text for the
  artifact give the same outcome (the same success or the same failure with the same
  message) and leave the same text in the artifact, whatever else the stores hold; and
  the core is a function of the text and the three literals alone.
\<close>

theorem main_depends_on_artifact_only:
  assumes "fs1 path = fs2 path"
  shows "fst (main fs1) = fst (main fs2) \<and> snd (main fs1) path = snd (main fs2) path \<and>
         (\<forall>text. fs1 path = Some text \<longrightarrow>
            fst (main fs1) = (case replace text old end_marker replacement of
                                Inl e \<Rightarrow> SystemExit (diagnostic e) | Inr out \<Rightarrow> Completed))"
proof (cases "fs1 path")
  case None
  with assms show ?thesis by (simp add: main_missing)
next
  case (Some t)
  with assms have "fs2 path = Some t" by simp
  with Some show ?thesis
    by (cases "replace t old end_marker replacement") (simp_all add: main_read)
qed

theorem main_depends_on_artifact_only_witness:
  "[path \<mapsto> old @ end_marker] path = [''notes.t'' \<mapsto> cp ''x'', path \<mapsto> old @ end_marker] path \<and>
   fst (main [path \<mapsto> old @ end_marker])
     = fst (main [''notes.t'' \<mapsto> cp ''x'', path \<mapsto> old @ end_marker]) \<and>
   snd (main [path \<mapsto> old @ end_marker]) path
     = snd (main [''notes.t'' \<mapsto> cp ''x'', path \<mapsto> old @ end_marker]) path"
proof -
  have h: "[path \<mapsto> old @ end_marker] path
             = [''notes.t'' \<mapsto> cp ''x'', path \<mapsto> old @ end_marker] path"
    by simp
  from main_depends_on_artifact_only
         [of "[path \<mapsto> old @ end_marker]"
             "[''notes.t'' \<mapsto> cp ''x'', path \<mapsto> old @ end_marker]"] h
  show ?thesis by blast
qed

end
